theory Spec2Isabelle
  imports Complex_Main
begin

section \<open>Beam search decoding of \<open>Seq2SeqWithBPE\<close> (src/seq2seq.py)\<close>

text \<open>
  The development embeds \<^verbatim>\<open>Seq2SeqWithBPE.decode_beam_search\<close> (lines 147-197).
  Finite floating-point numbers are idealised as reals (no rounding); the special values
  that the decoder can produce (\<open>inf\<close>, \<open>-inf\<close>, \<open>nan\<close>) are kept, with the IEEE rules
  for negation, subtraction, comparison and the logarithm. The values returned by the
  Keras model are floats as well: a distribution can hold \<open>nan\<close> or \<open>inf\<close>.
\<close>

subsection \<open>Scores\<close>

datatype flt = Fin real | PInf | MInf | NaN

text \<open>\<^verbatim>\<open>np.log\<close>: \<open>-inf\<close> at zero, \<open>nan\<close> below zero and at \<open>nan\<close>, \<open>inf\<close> at \<open>inf\<close> (numpy
  warns, it does not raise).\<close>

fun np_log :: "flt \<Rightarrow> flt" where
  "np_log (Fin p) = (if 0 < p then Fin (ln p) else if p = 0 then MInf else NaN)"
| "np_log PInf = PInf"
| "np_log MInf = NaN"
| "np_log NaN = NaN"

text \<open>Floating-point negation \<^verbatim>\<open>-a\<close>.\<close>

fun flt_neg :: "flt \<Rightarrow> flt" where
  "flt_neg (Fin x) = Fin (- x)"
| "flt_neg PInf = MInf"
| "flt_neg MInf = PInf"
| "flt_neg NaN = NaN"

text \<open>Floating-point subtraction \<^verbatim>\<open>a - b\<close>.\<close>

fun flt_sub :: "flt \<Rightarrow> flt \<Rightarrow> flt" where
  "flt_sub NaN b = NaN"
| "flt_sub a NaN = NaN"
| "flt_sub (Fin x) (Fin y) = Fin (x - y)"
| "flt_sub (Fin x) PInf = MInf"
| "flt_sub (Fin x) MInf = PInf"
| "flt_sub PInf PInf = NaN"
| "flt_sub PInf b = PInf"
| "flt_sub MInf MInf = NaN"
| "flt_sub MInf b = MInf"

text \<open>Floating-point comparison \<^verbatim>\<open>a < b\<close>: false whenever an operand is \<open>nan\<close>.\<close>

fun flt_lt :: "flt \<Rightarrow> flt \<Rightarrow> bool" where
  "flt_lt NaN b = False"
| "flt_lt a NaN = False"
| "flt_lt (Fin x) (Fin y) = (x < y)"
| "flt_lt (Fin x) PInf = True"
| "flt_lt (Fin x) MInf = False"
| "flt_lt PInf b = False"
| "flt_lt MInf MInf = False"
| "flt_lt MInf b = True"

text \<open>Floating-point comparison \<^verbatim>\<open>a <= b\<close>.\<close>

fun flt_le :: "flt \<Rightarrow> flt \<Rightarrow> bool" where
  "flt_le NaN b = False"
| "flt_le a NaN = False"
| "flt_le (Fin x) (Fin y) = (x \<le> y)"
| "flt_le (Fin x) PInf = True"
| "flt_le (Fin x) MInf = False"
| "flt_le PInf PInf = True"
| "flt_le PInf b = False"
| "flt_le MInf b = True"

subsection \<open>Data model\<close>

text \<open>The dictionaries built at lines 150-156 and 177-187.\<close>

record 'st candidate =
  states :: 'st
  idx_sequence :: "int list"
  token_sequence :: "string list"
  score :: flt
  live :: bool

text \<open>The implicit exceptions of the decode method: an index out of range
  (\<^verbatim>\<open>target_seq[0, 0]\<close>, \<^verbatim>\<open>tokens[idx]\<close>, \<^verbatim>\<open>probs[idx]\<close>, \<^verbatim>\<open>top_candidates[0]\<close>) and a
  negative dimension given to \<^verbatim>\<open>np.zeros\<close>.\<close>

datatype error = IndexError | ValueError

text \<open>
  The fields of \<^verbatim>\<open>self\<close> that the decode method reads. The two inference models and the
  tokenizer are not part of the repository's source; they are parameters:
  \<open>encoder_predict\<close> is \<^verbatim>\<open>self.inference_encoder_model.predict\<close>, \<open>decoder_predict\<close> is
  \<^verbatim>\<open>self.inference_decoder_model.predict\<close> reduced to what the method uses of it (the
  previous token id at \<^verbatim>\<open>target_seq[0, 0]\<close> and the state go in, \<^verbatim>\<open>output[0, 0, :]\<close> and the
  new state come out), and \<open>DecodePieces\<close> is \<^verbatim>\<open>self.bpe_target.sentencepiece.DecodePieces\<close>.
\<close>

record ('inp, 'st) seq2seq =
  encoder_predict :: "'inp \<Rightarrow> 'st"
  decoder_predict :: "int \<Rightarrow> 'st \<Rightarrow> flt list \<times> 'st"
  start_token_idx :: int
  start_token :: string
  stop_token_idx :: int
  tokens :: "string list"
  DecodePieces :: "string list \<Rightarrow> string"
  max_len_target :: int

text \<open>The loop variables of lines 150-158.\<close>

record 'st beam =
  top_candidates :: "'st candidate list"
  live_k :: nat
  dead_k :: nat

subsection \<open>Library operations\<close>

text \<open>The slice \<^verbatim>\<open>xs[:k]\<close>: a negative \<open>k\<close> counts from the end.\<close>

definition py_take :: "int \<Rightarrow> 'a list \<Rightarrow> 'a list" where
  "py_take k xs =
     (if 0 \<le> k then take (nat k) xs else take (nat (int (length xs) + k)) xs)"

text \<open>
  \<^verbatim>\<open>sorted(new_candidates, key=lambda c: c['score'])\<close>. Python's sort is stable and
  compares keys with \<^verbatim>\<open><\<close> only. Insertion from the right with the same comparison gives
  the list Python returns whenever no key is \<open>nan\<close> (the stable sorted arrangement is
  unique then).
\<close>

fun insort_score :: "'st candidate \<Rightarrow> 'st candidate list \<Rightarrow> 'st candidate list" where
  "insort_score c [] = [c]"
| "insort_score c (d # ds) =
     (if flt_lt (score d) (score c) then d # insort_score c ds else c # d # ds)"

definition sorted_by_score :: "'st candidate list \<Rightarrow> 'st candidate list" where
  "sorted_by_score cs = foldr insort_score cs []"

text \<open>
  The order of numpy's sorts on floats: ascending, with \<open>nan\<close> after every other value.
  \<open>np_sort_le a b\<close> says that \<open>a\<close> may stand before \<open>b\<close>.
\<close>

fun np_sort_le :: "flt \<Rightarrow> flt \<Rightarrow> bool" where
  "np_sort_le a NaN = True"
| "np_sort_le NaN b = False"
| "np_sort_le a b = flt_le a b"

text \<open>
  \<^verbatim>\<open>np.argsort\<close> is called with its default kind, for which numpy promises the indices
  of an arrangement in that order and no order among equal keys. It is a parameter
  \<open>argsort\<close> of the decoder; \<open>argsort_ok\<close> is numpy's contract, and \<open>argsort_stable\<close> is
  the instance that keeps equal keys in index order.
\<close>

definition argsort_ok :: "(flt list \<Rightarrow> nat list) \<Rightarrow> bool" where
  "argsort_ok argsort \<longleftrightarrow>
     (\<forall>xs. set (argsort xs) = {0..<length xs} \<and> distinct (argsort xs)
         \<and> sorted_wrt np_sort_le (map (\<lambda>i. xs ! i) (argsort xs)))"

fun insort_idx :: "flt list \<Rightarrow> nat \<Rightarrow> nat list \<Rightarrow> nat list" where
  "insort_idx xs i [] = [i]"
| "insort_idx xs i (j # js) =
     (if np_sort_le (xs ! i) (xs ! j) then i # j # js else j # insort_idx xs i js)"

definition argsort_stable :: "flt list \<Rightarrow> nat list" where
  "argsort_stable xs = foldr (insort_idx xs) [0..<length xs] []"

subsection \<open>The decode method\<close>

text \<open>Lines 177-187: the successors of \<open>c\<close> for the selected ids, in order.\<close>

fun successors ::
  "('inp, 'st) seq2seq \<Rightarrow> 'st candidate \<Rightarrow> flt list \<Rightarrow> 'st \<Rightarrow> nat list
     \<Rightarrow> error + 'st candidate list" where
  "successors self c probs sts [] = Inr []"
| "successors self c probs sts (idx # idxs) =
     (if length (tokens self) \<le> idx \<or> length probs \<le> idx then Inl IndexError
      else case successors self c probs sts idxs of
        Inl e \<Rightarrow> Inl e
      | Inr cs \<Rightarrow> Inr (\<lparr> states = sts,
                        idx_sequence = idx_sequence c @ [int idx],
                        token_sequence = token_sequence c @ [tokens self ! idx],
                        score = flt_sub (score c) (np_log (probs ! idx)),
                        live = (int idx \<noteq> stop_token_idx self) \<rparr> # cs))"

text \<open>Lines 169-187: one live candidate is expanded. \<^verbatim>\<open>np.zeros((1, max_len_target - 1))\<close>
  has no column when \<open>max_len_target = 1\<close>, and the assignment to \<^verbatim>\<open>target_seq[0, 0]\<close>
  raises then.\<close>

definition expand ::
  "('inp, 'st) seq2seq \<Rightarrow> (flt list \<Rightarrow> nat list) \<Rightarrow> int \<Rightarrow> 'st candidate
     \<Rightarrow> error + 'st candidate list" where
  "expand self argsort beam_width c =
     (if max_len_target self - 1 < 0 then Inl ValueError
      else if max_len_target self - 1 = 0 then Inl IndexError
      else if idx_sequence c = [] then Inl IndexError
      else (case decoder_predict self (last (idx_sequence c)) (states c) of
              (probs, sts) \<Rightarrow>
                successors self c probs sts
                  (py_take beam_width (argsort (map flt_neg probs)))))"

text \<open>Lines 163-187: the inner loop over \<^verbatim>\<open>top_candidates\<close>.\<close>

fun new_candidates ::
  "('inp, 'st) seq2seq \<Rightarrow> (flt list \<Rightarrow> nat list) \<Rightarrow> int \<Rightarrow> 'st candidate list
     \<Rightarrow> error + 'st candidate list" where
  "new_candidates self argsort beam_width [] = Inr []"
| "new_candidates self argsort beam_width (c # cs) =
     (if \<not> live c then
        (case new_candidates self argsort beam_width cs of
           Inl e \<Rightarrow> Inl e
         | Inr r \<Rightarrow> Inr (c # r))
      else
        (case expand self argsort beam_width c of
           Inl e \<Rightarrow> Inl e
         | Inr succs \<Rightarrow>
             (case new_candidates self argsort beam_width cs of
                Inl e \<Rightarrow> Inl e
              | Inr r \<Rightarrow> Inr (succs @ r))))"

text \<open>Lines 189-195: pruning and the two counters.\<close>

definition prune :: "int \<Rightarrow> 'st candidate list \<Rightarrow> 'st beam" where
  "prune beam_width cands =
     (let top = py_take beam_width (sorted_by_score cands)
      in \<lparr> top_candidates = top,
           live_k = length (filter (\<lambda>c. live c) top),
           dead_k = length (filter (\<lambda>c. \<not> live c) top) \<rparr>)"

text \<open>Lines 163-195: one generation, the body of the loop after the test of line 161.\<close>

definition generation ::
  "('inp, 'st) seq2seq \<Rightarrow> (flt list \<Rightarrow> nat list) \<Rightarrow> int \<Rightarrow> 'st beam
     \<Rightarrow> error + 'st beam" where
  "generation self argsort beam_width b =
     (case new_candidates self argsort beam_width (top_candidates b) of
        Inl e \<Rightarrow> Inl e
      | Inr cands \<Rightarrow> Inr (prune beam_width cands))"

text \<open>Line 161: the loop goes on while this holds.\<close>

definition running :: "int \<Rightarrow> 'st beam \<Rightarrow> bool" where
  "running beam_width b \<longleftrightarrow> live_k b \<noteq> 0 \<and> int (dead_k b) < beam_width"

text \<open>
  Lines 160-195: the loop \<^verbatim>\<open>for _ in range(self.max_len_target)\<close>. The first argument is
  the number of values \<^verbatim>\<open>range\<close> still has to give. The result is the number of
  generations that were started and what the loop ends with.
\<close>

fun decode_loop ::
  "('inp, 'st) seq2seq \<Rightarrow> (flt list \<Rightarrow> nat list) \<Rightarrow> int \<Rightarrow> nat \<Rightarrow> 'st beam
     \<Rightarrow> nat \<times> (error + 'st beam)" where
  "decode_loop self argsort beam_width 0 b = (0, Inr b)"
| "decode_loop self argsort beam_width (Suc n) b =
     (if \<not> running beam_width b then (0, Inr b)
      else case generation self argsort beam_width b of
        Inl e \<Rightarrow> (1, Inl e)
      | Inr b' \<Rightarrow>
          (case decode_loop self argsort beam_width n b' of
             (g, r) \<Rightarrow> (Suc g, r)))"

text \<open>Lines 148-158.\<close>

definition initial_beam :: "('inp, 'st) seq2seq \<Rightarrow> 'inp \<Rightarrow> 'st beam" where
  "initial_beam self input_seq =
     \<lparr> top_candidates =
         [\<lparr> states = encoder_predict self input_seq,
            idx_sequence = [start_token_idx self],
            token_sequence = [start_token self],
            score = Fin 0,
            live = True \<rparr>],
       live_k = 1,
       dead_k = 0 \<rparr>"

text \<open>The whole loop, from the initial beam; \<^verbatim>\<open>range(n)\<close> is empty for \<open>n \<le> 0\<close>.\<close>

definition run_loop ::
  "('inp, 'st) seq2seq \<Rightarrow> (flt list \<Rightarrow> nat list) \<Rightarrow> 'inp \<Rightarrow> int
     \<Rightarrow> nat \<times> (error + 'st beam)" where
  "run_loop self argsort input_seq beam_width =
     decode_loop self argsort beam_width (nat (max_len_target self))
       (initial_beam self input_seq)"

definition generations ::
  "('inp, 'st) seq2seq \<Rightarrow> (flt list \<Rightarrow> nat list) \<Rightarrow> 'inp \<Rightarrow> int \<Rightarrow> nat" where
  "generations self argsort input_seq beam_width =
     fst (run_loop self argsort input_seq beam_width)"

text \<open>Line 197, before the detokenizer: \<^verbatim>\<open>top_candidates[0]\<close>.\<close>

definition best_candidate ::
  "('inp, 'st) seq2seq \<Rightarrow> (flt list \<Rightarrow> nat list) \<Rightarrow> 'inp \<Rightarrow> int
     \<Rightarrow> error + 'st candidate" where
  "best_candidate self argsort input_seq beam_width =
     (case snd (run_loop self argsort input_seq beam_width) of
        Inl e \<Rightarrow> Inl e
      | Inr b \<Rightarrow> (case top_candidates b of [] \<Rightarrow> Inl IndexError | c # _ \<Rightarrow> Inr c))"

definition decode_beam_search ::
  "('inp, 'st) seq2seq \<Rightarrow> (flt list \<Rightarrow> nat list) \<Rightarrow> 'inp \<Rightarrow> int \<Rightarrow> error + string" where
  "decode_beam_search self argsort input_seq beam_width =
     (case best_candidate self argsort input_seq beam_width of
        Inl e \<Rightarrow> Inl e
      | Inr c \<Rightarrow> Inr (DecodePieces self (token_sequence c)))"

subsection \<open>Beams that the loop can hold\<close>

text \<open>The beams of the loop: the initial one, and the one each generation builds from a
  beam that passes the test of line 161.\<close>

inductive reachable ::
  "('inp, 'st) seq2seq \<Rightarrow> (flt list \<Rightarrow> nat list) \<Rightarrow> 'inp \<Rightarrow> int \<Rightarrow> 'st beam \<Rightarrow> bool"
  for self :: "('inp, 'st) seq2seq" and argsort :: "flt list \<Rightarrow> nat list"
    and input_seq :: 'inp and beam_width :: int where
  reachable_initial:
    "reachable self argsort input_seq beam_width (initial_beam self input_seq)"
| reachable_generation:
    "reachable self argsort input_seq beam_width b \<Longrightarrow> running beam_width b \<Longrightarrow>
     generation self argsort beam_width b = Inr b' \<Longrightarrow>
     reachable self argsort input_seq beam_width b'"

text \<open>The candidates the loop ends with (none when it raises).\<close>

definition final_candidates ::
  "('inp, 'st) seq2seq \<Rightarrow> (flt list \<Rightarrow> nat list) \<Rightarrow> 'inp \<Rightarrow> int \<Rightarrow> 'st candidate list" where
  "final_candidates self argsort input_seq beam_width =
     (case snd (run_loop self argsort input_seq beam_width) of
        Inl e \<Rightarrow> []
      | Inr b \<Rightarrow> top_candidates b)"

text \<open>A list of candidates is in ascending order of score (\<^verbatim>\<open><=\<close> on floats).\<close>

definition ascending :: "'st candidate list \<Rightarrow> bool" where
  "ascending cs \<longleftrightarrow> sorted_wrt (\<lambda>c d. flt_le (score c) (score d)) cs"

subsection \<open>Conditions on the model\<close>

text \<open>Every value of the model is a finite number that is not negative (neither \<open>nan\<close>
  nor \<open>inf\<close>).\<close>

definition probs_finite_nonneg :: "('inp, 'st) seq2seq \<Rightarrow> bool" where
  "probs_finite_nonneg self \<longleftrightarrow>
     (\<forall>tok sts. \<forall>p \<in> set (fst (decoder_predict self tok sts)). \<exists>x. p = Fin x \<and> 0 \<le> x)"

text \<open>Every value of the model is a finite number between 0 and 1.\<close>

definition probs_unit :: "('inp, 'st) seq2seq \<Rightarrow> bool" where
  "probs_unit self \<longleftrightarrow>
     (\<forall>tok sts. \<forall>p \<in> set (fst (decoder_predict self tok sts)).
        \<exists>x. p = Fin x \<and> 0 \<le> x \<and> x \<le> 1)"


subsection \<open>Greedy decoding\<close>

text \<open>
  Greedy decoding in the words of the specification: at every step an arg-max id of the
  step distribution (an id such that no value of the distribution is greater than its
  own) is appended, until the stop token or the step budget is reached.
  \<open>greedy_decoding self n tok sts ids\<close> says that \<open>ids\<close> is what greedy decoding appends
  with budget \<open>n\<close> after the token \<open>tok\<close> in state \<open>sts\<close>.
\<close>

definition is_argmax :: "flt list \<Rightarrow> int \<Rightarrow> bool" where
  "is_argmax probs i \<longleftrightarrow>
     0 \<le> i \<and> nat i < length probs \<and> (\<forall>p \<in> set probs. \<not> flt_lt (probs ! nat i) p)"

fun greedy_decoding :: "('inp, 'st) seq2seq \<Rightarrow> nat \<Rightarrow> int \<Rightarrow> 'st \<Rightarrow> int list \<Rightarrow> bool" where
  "greedy_decoding self 0 tok sts ids = (ids = [])"
| "greedy_decoding self (Suc n) tok sts [] = False"
| "greedy_decoding self (Suc n) tok sts (i # ids) =
     (case decoder_predict self tok sts of
        (probs, sts') \<Rightarrow>
          is_argmax probs i \<and>
          (if i = stop_token_idx self then ids = []
           else greedy_decoding self n i sts' ids))"

subsection \<open>Concrete models\<close>

text \<open>Four output ids, stop id 1, and a model that gives probability 1 to the stop id
  whatever it is given.\<close>

definition forced_stop_model :: "(unit, unit) seq2seq" where
  "forced_stop_model =
     \<lparr> encoder_predict = (\<lambda>_. ()),
       decoder_predict = (\<lambda>_ sts. ([Fin 0, Fin 1, Fin 0, Fin 0], sts)),
       start_token_idx = 0,
       start_token = ''<s>'',
       stop_token_idx = 1,
       tokens = [''<s>'', ''</s>'', ''a'', ''b''],
       DecodePieces = concat,
       max_len_target = 10 \<rparr>"

text \<open>Two output ids, no stop among them, and a model whose second value is negative
  after the first step; none of its three distributions sums to 1.\<close>

definition negative_model :: "(unit, unit) seq2seq" where
  "negative_model =
     \<lparr> encoder_predict = (\<lambda>_. ()),
       decoder_predict = (\<lambda>tok sts.
         (if tok = 0 then [Fin (1 / 4), Fin (- 1)]
          else if tok = 1 then [Fin 1, Fin (- 1)]
          else [Fin 1, Fin (1 / 2)], sts)),
       start_token_idx = 2,
       start_token = ''<s>'',
       stop_token_idx = 3,
       tokens = [''a'', ''b''],
       DecodePieces = concat,
       max_len_target = 2 \<rparr>"

text \<open>Three output ids, stop id 2, and a model that prefers id 1 after the start token
  and the stop id after anything else.\<close>

definition two_step_model :: "(unit, unit) seq2seq" where
  "two_step_model =
     \<lparr> encoder_predict = (\<lambda>_. ()),
       decoder_predict = (\<lambda>tok sts.
         (if tok = 0 then [Fin (1 / 10), Fin (7 / 10), Fin (2 / 10)]
          else [Fin (2 / 10), Fin (1 / 10), Fin (7 / 10)], sts)),
       start_token_idx = 0,
       start_token = ''<s>'',
       stop_token_idx = 2,
       tokens = [''<s>'', ''a'', ''</s>''],
       DecodePieces = concat,
       max_len_target = 5 \<rparr>"

text \<open>Two output ids, no stop among them, and a model without a negative value: its
  second value is \<open>nan\<close> at the first step, and 0 afterwards.\<close>

definition nan_model :: "(unit, unit) seq2seq" where
  "nan_model =
     \<lparr> encoder_predict = (\<lambda>_. ()),
       decoder_predict = (\<lambda>tok sts.
         (if tok = 2 then [Fin (1 / 2), NaN] else [Fin 1, Fin 0], sts)),
       start_token_idx = 2,
       start_token = ''<s>'',
       stop_token_idx = 3,
       tokens = [''a'', ''b''],
       DecodePieces = concat,
       max_len_target = 2 \<rparr>"

section \<open>Properties\<close>

subsection \<open>The step budget\<close>

lemma decode_loop_bound: "fst (decode_loop self argsort beam_width n b) \<le> n"
proof (induction n arbitrary: b)
  case 0
  show ?case by simp
next
  case (Suc n)
  show ?case
  proof (cases "running beam_width b")
    case False
    then show ?thesis by simp
  next
    case True
    show ?thesis
    proof (cases "generation self argsort beam_width b")
      case (Inl e)
      with True show ?thesis by simp
    next
      case (Inr b')
      from Suc.IH[of b'] Inr True show ?thesis
        by (cases "decode_loop self argsort beam_width n b'") simp
    qed
  qed
qed

text \<open>
  C1. The decode loop is a total function of its inputs, and for every input sequence,
  every beam width, every model and every \<open>argsort\<close> it starts at most
  \<open>max_len_target\<close> generations (none when \<open>max_len_target\<close> is negative).
\<close>

theorem C1_generations_within_budget:
  "int (generations self argsort input_seq beam_width) \<le> max 0 (max_len_target self)"
proof -
  have "generations self argsort input_seq beam_width \<le> nat (max_len_target self)"
    unfolding generations_def run_loop_def by (rule decode_loop_bound)
  then show ?thesis by linarith
qed

subsection \<open>Slices and the sort\<close>

lemma set_py_take: "set (py_take k xs) \<subseteq> set xs"
  by (auto simp: py_take_def dest: in_set_takeD)

lemma length_py_take: "0 \<le> k \<Longrightarrow> int (length (py_take k xs)) \<le> k"
  by (simp add: py_take_def)


lemma set_insort_score: "set (insort_score c cs) = insert c (set cs)"
  by (induction cs) auto

lemma sorted_by_score_Nil: "sorted_by_score [] = []"
  by (simp add: sorted_by_score_def)

lemma sorted_by_score_Cons: "sorted_by_score (c # cs) = insort_score c (sorted_by_score cs)"
  by (simp add: sorted_by_score_def)

lemma set_sorted_by_score: "set (sorted_by_score cs) = set cs"
  by (induction cs) (simp_all add: sorted_by_score_Nil sorted_by_score_Cons set_insort_score)

lemma flt_le_trans: "flt_le a b \<Longrightarrow> flt_le b c \<Longrightarrow> flt_le a c"
  by (cases a; cases b; cases c) simp_all

lemma flt_not_lt_le: "a \<noteq> NaN \<Longrightarrow> b \<noteq> NaN \<Longrightarrow> \<not> flt_lt a b \<Longrightarrow> flt_le b a"
  by (cases a; cases b) simp_all

lemma flt_lt_le: "flt_lt a b \<Longrightarrow> flt_le a b"
  by (cases a; cases b) simp_all

lemma ascending_insort_score:
  assumes "ascending cs" and "score c \<noteq> NaN" and "\<forall>d\<in>set cs. score d \<noteq> NaN"
  shows "ascending (insort_score c cs)"
  using assms
proof (induction cs)
  case Nil
  then show ?case by (simp add: ascending_def)
next
  case (Cons d ds)
  show ?case
  proof (cases "flt_lt (score d) (score c)")
    case True
    with Cons show ?thesis
      by (auto simp: ascending_def set_insort_score flt_lt_le)
  next
    case False
    with Cons.prems have le: "flt_le (score c) (score d)"
      by (simp add: flt_not_lt_le)
    with Cons.prems False show ?thesis
      by (auto simp: ascending_def intro: flt_le_trans)
  qed
qed

lemma ascending_sorted_by_score:
  "\<forall>d\<in>set cs. score d \<noteq> NaN \<Longrightarrow> ascending (sorted_by_score cs)"
proof (induction cs)
  case Nil
  show ?case by (simp add: sorted_by_score_Nil ascending_def)
next
  case (Cons c cs)
  then show ?case
    by (simp add: sorted_by_score_Cons ascending_insort_score set_sorted_by_score)
qed

lemma ascending_py_take: "ascending cs \<Longrightarrow> ascending (py_take k cs)"
  by (simp add: ascending_def py_take_def sorted_wrt_take)

subsection \<open>Where the candidates of a generation come from\<close>

lemma successors_mem:
  "successors self c probs sts idxs = Inr cs \<Longrightarrow> s \<in> set cs \<Longrightarrow>
   \<exists>idx \<in> set idxs. idx < length probs \<and> idx < length (tokens self) \<and>
     s = \<lparr> states = sts, idx_sequence = idx_sequence c @ [int idx],
           token_sequence = token_sequence c @ [tokens self ! idx],
           score = flt_sub (score c) (np_log (probs ! idx)),
           live = (int idx \<noteq> stop_token_idx self) \<rparr>"
proof (induction idxs arbitrary: cs)
  case Nil
  then show ?case by simp
next
  case (Cons i idxs)
  from Cons.prems(1) obtain cs' where
    ok: "i < length (tokens self)" "i < length probs" and
    rest: "successors self c probs sts idxs = Inr cs'" and
    cs: "cs = \<lparr> states = sts, idx_sequence = idx_sequence c @ [int i],
           token_sequence = token_sequence c @ [tokens self ! i],
           score = flt_sub (score c) (np_log (probs ! i)),
           live = (int i \<noteq> stop_token_idx self) \<rparr> # cs'"
    by (auto split: if_splits sum.splits)
  from Cons.prems(2) cs consider
    "s = \<lparr> states = sts, idx_sequence = idx_sequence c @ [int i],
           token_sequence = token_sequence c @ [tokens self ! i],
           score = flt_sub (score c) (np_log (probs ! i)),
           live = (int i \<noteq> stop_token_idx self) \<rparr>" | "s \<in> set cs'"
    by auto
  then show ?case
  proof cases
    case 1
    with ok show ?thesis by auto
  next
    case 2
    from Cons.IH[OF rest 2] show ?thesis by auto
  qed
qed

lemma successors_has:
  "successors self c probs sts idxs = Inr cs \<Longrightarrow> idx \<in> set idxs \<Longrightarrow>
     \<lparr> states = sts, idx_sequence = idx_sequence c @ [int idx],
       token_sequence = token_sequence c @ [tokens self ! idx],
       score = flt_sub (score c) (np_log (probs ! idx)),
       live = (int idx \<noteq> stop_token_idx self) \<rparr> \<in> set cs"
proof (induction idxs arbitrary: cs)
  case Nil
  then show ?case by simp
next
  case (Cons i idxs)
  then show ?case by (auto split: if_splits sum.splits)
qed



lemma expand_mem:
  assumes "expand self argsort beam_width c = Inr succs" and "s \<in> set succs"
  shows "\<exists>probs sts idx.
     decoder_predict self (last (idx_sequence c)) (states c) = (probs, sts) \<and>
     idx \<in> set (py_take beam_width (argsort (map flt_neg probs))) \<and>
     idx < length probs \<and> idx < length (tokens self) \<and>
     s = \<lparr> states = sts, idx_sequence = idx_sequence c @ [int idx],
           token_sequence = token_sequence c @ [tokens self ! idx],
           score = flt_sub (score c) (np_log (probs ! idx)),
           live = (int idx \<noteq> stop_token_idx self) \<rparr>"
proof -
  obtain probs sts where p: "decoder_predict self (last (idx_sequence c)) (states c) = (probs, sts)"
    by (cases "decoder_predict self (last (idx_sequence c)) (states c)")
  with assms(1) have
    "successors self c probs sts (py_take beam_width (argsort (map flt_neg probs))) = Inr succs"
    by (simp add: expand_def split: if_splits)
  from successors_mem[OF this assms(2)] p show ?thesis by blast
qed

lemma new_candidates_mem:
  "new_candidates self argsort beam_width cs = Inr pool \<Longrightarrow> s \<in> set pool \<Longrightarrow>
   (s \<in> set cs \<and> \<not> live s) \<or>
   (\<exists>c \<in> set cs. live c \<and>
      (\<exists>succs. expand self argsort beam_width c = Inr succs \<and> s \<in> set succs))"
proof (induction cs arbitrary: pool)
  case Nil
  then show ?case by simp
next
  case (Cons c cs)
  show ?case
  proof (cases "live c")
    case False
    with Cons.prems(1) obtain r where
      r: "new_candidates self argsort beam_width cs = Inr r" and pool: "pool = c # r"
      by (auto split: sum.splits)
    from Cons.prems(2) pool have "s = c \<or> s \<in> set r" by simp
    then show ?thesis
    proof
      assume "s = c"
      with False show ?thesis by simp
    next
      assume "s \<in> set r"
      from Cons.IH[OF r this] show ?thesis by auto
    qed
  next
    case True
    with Cons.prems(1) obtain succs r where
      e: "expand self argsort beam_width c = Inr succs" and
      r: "new_candidates self argsort beam_width cs = Inr r" and pool: "pool = succs @ r"
      by (auto split: sum.splits)
    from Cons.prems(2) pool have "s \<in> set succs \<or> s \<in> set r" by simp
    then show ?thesis
    proof
      assume "s \<in> set succs"
      with True e show ?thesis by auto
    next
      assume "s \<in> set r"
      from Cons.IH[OF r this] show ?thesis by auto
    qed
  qed
qed

lemma new_candidates_has:
  "new_candidates self argsort beam_width cs = Inr pool \<Longrightarrow> c \<in> set cs \<Longrightarrow>
   (if live c then \<exists>succs. expand self argsort beam_width c = Inr succs \<and> set succs \<subseteq> set pool
    else c \<in> set pool)"
proof (induction cs arbitrary: pool)
  case Nil
  then show ?case by simp
next
  case (Cons d cs)
  show ?case
  proof (cases "live d")
    case False
    with Cons.prems(1) obtain r where
      r: "new_candidates self argsort beam_width cs = Inr r" and pool: "pool = d # r"
      by (auto split: sum.splits)
    from Cons.prems(2) have "c = d \<or> c \<in> set cs" by simp
    then show ?thesis
    proof
      assume "c = d"
      with False pool show ?thesis by simp
    next
      assume "c \<in> set cs"
      from Cons.IH[OF r this] pool show ?thesis by (auto split: if_splits)
    qed
  next
    case True
    with Cons.prems(1) obtain succs r where
      e: "expand self argsort beam_width d = Inr succs" and
      r: "new_candidates self argsort beam_width cs = Inr r" and pool: "pool = succs @ r"
      by (auto split: sum.splits)
    from Cons.prems(2) have "c = d \<or> c \<in> set cs" by simp
    then show ?thesis
    proof
      assume "c = d"
      with True e pool show ?thesis by simp
    next
      assume "c \<in> set cs"
      from Cons.IH[OF r this] pool show ?thesis by (auto split: if_splits)
    qed
  qed
qed

lemma generation_pool:
  assumes "generation self argsort beam_width b = Inr b'"
  obtains pool where "new_candidates self argsort beam_width (top_candidates b) = Inr pool"
    and "b' = prune beam_width pool"
  using assms by (auto simp: generation_def split: sum.splits)

lemma top_candidates_prune:
  "top_candidates (prune beam_width pool) = py_take beam_width (sorted_by_score pool)"
  by (simp add: prune_def Let_def)

lemma set_top_candidates_prune: "set (top_candidates (prune beam_width pool)) \<subseteq> set pool"
  using set_py_take[of beam_width "sorted_by_score pool"]
  by (simp add: top_candidates_prune set_sorted_by_score)

lemma generation_mem:
  assumes "generation self argsort beam_width b = Inr b'" and "s \<in> set (top_candidates b')"
  shows "(s \<in> set (top_candidates b) \<and> \<not> live s) \<or>
   (\<exists>c \<in> set (top_candidates b). live c \<and>
      (\<exists>succs. expand self argsort beam_width c = Inr succs \<and> s \<in> set succs))"
proof -
  from assms(1) obtain pool where
    pool: "new_candidates self argsort beam_width (top_candidates b) = Inr pool"
    and b': "b' = prune beam_width pool"
    by (rule generation_pool)
  from assms(2) b' set_top_candidates_prune[of beam_width pool] have "s \<in> set pool" by auto
  from new_candidates_mem[OF pool this] show ?thesis .
qed

text \<open>An invariant of the candidates: it holds of the initial candidate and expansion
  keeps it, so it holds in every beam of the loop.\<close>

lemma reachable_invariant:
  assumes r: "reachable self argsort input_seq beam_width b"
    and init: "P \<lparr> states = encoder_predict self input_seq,
            idx_sequence = [start_token_idx self],
            token_sequence = [start_token self],
            score = Fin 0, live = True \<rparr>"
    and step: "\<And>c succs s. P c \<Longrightarrow> live c \<Longrightarrow>
            expand self argsort beam_width c = Inr succs \<Longrightarrow> s \<in> set succs \<Longrightarrow> P s"
  shows "\<forall>c \<in> set (top_candidates b). P c"
  using r
proof (induction rule: reachable.induct)
  case reachable_initial
  from init show ?case by (simp add: initial_beam_def)
next
  case (reachable_generation b b')
  show ?case
  proof
    fix s assume "s \<in> set (top_candidates b')"
    from generation_mem[OF reachable_generation.hyps(3) this] reachable_generation.IH step
    show "P s" by blast
  qed
qed

subsection \<open>The loop stays within the reachable beams\<close>

lemma decode_loop_reachable:
  "reachable self argsort input_seq beam_width b \<Longrightarrow>
   decode_loop self argsort beam_width n b = (g, Inr b') \<Longrightarrow>
   reachable self argsort input_seq beam_width b'"
proof (induction n arbitrary: b g)
  case 0
  then show ?case by simp
next
  case (Suc n)
  show ?case
  proof (cases "running beam_width b")
    case False
    with Suc.prems show ?thesis by simp
  next
    case True
    show ?thesis
    proof (cases "generation self argsort beam_width b")
      case (Inl e)
      with True Suc.prems(2) show ?thesis by simp
    next
      case (Inr b1)
      have r1: "reachable self argsort input_seq beam_width b1"
        by (rule reachable_generation[OF Suc.prems(1) True Inr])
      obtain g1 r where l: "decode_loop self argsort beam_width n b1 = (g1, r)"
        by (cases "decode_loop self argsort beam_width n b1")
      with True Inr Suc.prems(2) have "r = Inr b'" by simp
      with l Suc.IH[OF r1] show ?thesis by simp
    qed
  qed
qed

lemma run_loop_reachable:
  "snd (run_loop self argsort input_seq beam_width) = Inr b \<Longrightarrow>
   reachable self argsort input_seq beam_width b"
proof -
  assume a: "snd (run_loop self argsort input_seq beam_width) = Inr b"
  obtain g where "decode_loop self argsort beam_width (nat (max_len_target self))
      (initial_beam self input_seq) = (g, Inr b)"
    using a by (cases "run_loop self argsort input_seq beam_width") (simp add: run_loop_def)
  from decode_loop_reachable[OF reachable_initial this] show ?thesis .
qed

subsection \<open>Every sequence begins with the start token\<close>

lemma reachable_start_token:
  assumes "reachable self argsort input_seq beam_width b" and "c \<in> set (top_candidates b)"
  shows "(\<exists>rest. token_sequence c = start_token self # rest) \<and>
         (\<exists>rest. idx_sequence c = start_token_idx self # rest)"
proof -
  let ?P = "\<lambda>c::'b candidate. (\<exists>rest. token_sequence c = start_token self # rest) \<and>
         (\<exists>rest. idx_sequence c = start_token_idx self # rest)"
  have "\<forall>c \<in> set (top_candidates b). ?P c"
  proof (rule reachable_invariant[OF assms(1)])
    show "?P \<lparr> states = encoder_predict self input_seq,
            idx_sequence = [start_token_idx self],
            token_sequence = [start_token self],
            score = Fin 0, live = True \<rparr>"
      by simp
  next
    fix c succs s
    assume "?P c" and "expand self argsort beam_width c = Inr succs" and "s \<in> set succs"
    from expand_mem[OF this(2,3)] \<open>?P c\<close> show "?P s" by auto
  qed
  with assms(2) show ?thesis by blast
qed

text \<open>
  C10. Whenever the decode method returns, the pieces it hands to the detokenizer are
  those of the first candidate of the final beam, and they begin with the start token.
\<close>

theorem C10_output_begins_with_start_token:
  assumes "decode_beam_search self argsort input_seq beam_width = Inr text"
  shows "\<exists>c rest. best_candidate self argsort input_seq beam_width = Inr c \<and>
           token_sequence c = start_token self # rest \<and>
           text = DecodePieces self (start_token self # rest)"
proof -
  from assms obtain c where
    c: "best_candidate self argsort input_seq beam_width = Inr c" and
    out: "text = DecodePieces self (token_sequence c)"
    by (auto simp: decode_beam_search_def split: sum.splits)
  from c obtain b where
    b: "snd (run_loop self argsort input_seq beam_width) = Inr b" and
    top: "c \<in> set (top_candidates b)"
    by (auto simp: best_candidate_def split: sum.splits list.splits)
  from reachable_start_token[OF run_loop_reachable[OF b] top] c out
  show ?thesis by auto
qed

subsection \<open>Scores\<close>

lemma flt_sub_np_log_nonneg:
  "a \<noteq> NaN \<Longrightarrow> a \<noteq> MInf \<Longrightarrow> 0 \<le> x \<Longrightarrow>
   flt_sub a (np_log (Fin x)) \<noteq> NaN \<and> flt_sub a (np_log (Fin x)) \<noteq> MInf"
  by (cases a) auto

lemma flt_sub_np_log_zero:
  "a \<noteq> NaN \<Longrightarrow> a \<noteq> MInf \<Longrightarrow> flt_sub a (np_log (Fin 0)) = PInf"
  by (cases a) auto

lemma flt_sub_np_log_unit:
  "flt_le (Fin 0) a \<Longrightarrow> 0 \<le> x \<Longrightarrow> x \<le> 1 \<Longrightarrow> flt_le a (flt_sub a (np_log (Fin x)))"
  by (cases a) auto

lemma reachable_no_nan:
  assumes "probs_finite_nonneg self" and "reachable self argsort input_seq beam_width b"
    and "c \<in> set (top_candidates b)"
  shows "score c \<noteq> NaN \<and> score c \<noteq> MInf"
proof -
  let ?P = "\<lambda>c::'b candidate. score c \<noteq> NaN \<and> score c \<noteq> MInf"
  have "\<forall>c \<in> set (top_candidates b). ?P c"
  proof (rule reachable_invariant[OF assms(2)])
    show "?P \<lparr> states = encoder_predict self input_seq,
            idx_sequence = [start_token_idx self],
            token_sequence = [start_token self],
            score = Fin 0, live = True \<rparr>"
      by simp
  next
    fix c succs s
    assume P: "?P c" and e: "expand self argsort beam_width c = Inr succs" and s: "s \<in> set succs"
    from expand_mem[OF e s] obtain probs sts idx where
      p: "decoder_predict self (last (idx_sequence c)) (states c) = (probs, sts)" and
      idx: "idx < length probs" and sc: "score s = flt_sub (score c) (np_log (probs ! idx))"
      by auto
    from p idx have "probs ! idx \<in> set (fst (decoder_predict self (last (idx_sequence c)) (states c)))"
      by simp
    with assms(1) obtain x where "probs ! idx = Fin x" "0 \<le> x"
      unfolding probs_finite_nonneg_def by blast
    with P sc flt_sub_np_log_nonneg[of "score c" x] show "?P s" by simp
  qed
  with assms(3) show ?thesis by blast
qed

lemma pool_no_nan:
  assumes nn: "probs_finite_nonneg self" and r: "reachable self argsort input_seq beam_width b"
    and pool: "new_candidates self argsort beam_width (top_candidates b) = Inr pool"
    and s: "s \<in> set pool"
  shows "score s \<noteq> NaN \<and> score s \<noteq> MInf"
proof -
  from new_candidates_mem[OF pool s] show ?thesis
  proof
    assume "s \<in> set (top_candidates b) \<and> \<not> live s"
    with reachable_no_nan[OF nn r] show ?thesis by blast
  next
    assume "\<exists>c\<in>set (top_candidates b). live c \<and>
      (\<exists>succs. expand self argsort beam_width c = Inr succs \<and> s \<in> set succs)"
    then obtain c succs where c: "c \<in> set (top_candidates b)" and
      e: "expand self argsort beam_width c = Inr succs" and ss: "s \<in> set succs"
      by blast
    from expand_mem[OF e ss] obtain probs sts idx where
      p: "decoder_predict self (last (idx_sequence c)) (states c) = (probs, sts)" and
      idx: "idx < length probs" and sc: "score s = flt_sub (score c) (np_log (probs ! idx))"
      by auto
    from p idx have "probs ! idx \<in> set (fst (decoder_predict self (last (idx_sequence c)) (states c)))"
      by simp
    with nn obtain x where "probs ! idx = Fin x" "0 \<le> x"
      unfolding probs_finite_nonneg_def by blast
    with reachable_no_nan[OF nn r c] sc flt_sub_np_log_nonneg[of "score c" x]
    show ?thesis by simp
  qed
qed

lemma running_beam_width: "running beam_width b \<Longrightarrow> 0 < beam_width"
  by (simp add: running_def)

text \<open>
  C2 (amended). After every generation the beam holds at most \<open>beam_width\<close> candidates,
  for every model. It is in ascending order of score when no score of the pool of the
  generation is \<open>nan\<close>, and so whenever every value of the model is a finite number that
  is not negative.
\<close>

theorem C2_beam_bounded_and_sorted:
  assumes "reachable self argsort input_seq beam_width b" and "running beam_width b"
    and "new_candidates self argsort beam_width (top_candidates b) = Inr pool"
    and "generation self argsort beam_width b = Inr b'"
  shows "int (length (top_candidates b')) \<le> beam_width \<and>
         ((\<forall>d \<in> set pool. score d \<noteq> NaN) \<longrightarrow> ascending (top_candidates b')) \<and>
         (probs_finite_nonneg self \<longrightarrow> ascending (top_candidates b'))"
proof -
  from assms(3,4) have b': "b' = prune beam_width pool"
    by (simp add: generation_def)
  from running_beam_width[OF assms(2)] have "0 \<le> beam_width" by simp
  then have len: "int (length (top_candidates b')) \<le> beam_width"
    unfolding b' top_candidates_prune by (rule length_py_take)
  have asc: "ascending (top_candidates b')" if "\<forall>d \<in> set pool. score d \<noteq> NaN"
  proof -
    from that have "ascending (sorted_by_score pool)" by (rule ascending_sorted_by_score)
    then show ?thesis unfolding b' top_candidates_prune by (rule ascending_py_take)
  qed
  have "ascending (top_candidates b')" if nn: "probs_finite_nonneg self"
  proof -
    from pool_no_nan[OF nn assms(1,3)] have "\<forall>d\<in>set pool. score d \<noteq> NaN" by blast
    then show ?thesis by (rule asc)
  qed
  with len asc show ?thesis by blast
qed

subsection \<open>Runs of the concrete models\<close>

lemmas run_defs = run_loop_def initial_beam_def running_def generation_def expand_def
  py_take_def argsort_stable_def upt_conv_Cons prune_def sorted_by_score_def
  Let_def eval_nat_numeral

lemma forced_stop_first_generation:
  "generation forced_stop_model argsort_stable 3 (initial_beam forced_stop_model ()) =
     Inr \<lparr> top_candidates =
        [\<lparr> states = (), idx_sequence = [0, 1], token_sequence = [''<s>'', ''</s>''],
           score = Fin 0, live = False \<rparr>,
         \<lparr> states = (), idx_sequence = [0, 0], token_sequence = [''<s>'', ''<s>''],
           score = PInf, live = True \<rparr>,
         \<lparr> states = (), idx_sequence = [0, 2], token_sequence = [''<s>'', ''a''],
           score = PInf, live = True \<rparr>],
       live_k = 2, dead_k = 1 \<rparr>"
  by (simp add: forced_stop_model_def run_defs)

lemma forced_stop_run:
  "run_loop forced_stop_model argsort_stable () 3 =
     (3, Inr \<lparr> top_candidates =
        [\<lparr> states = (), idx_sequence = [0, 1], token_sequence = [''<s>'', ''</s>''],
           score = Fin 0, live = False \<rparr>,
         \<lparr> states = (), idx_sequence = [0, 0, 1],
           token_sequence = [''<s>'', ''<s>'', ''</s>''], score = PInf, live = False \<rparr>,
         \<lparr> states = (), idx_sequence = [0, 0, 0, 1],
           token_sequence = [''<s>'', ''<s>'', ''<s>'', ''</s>''], score = PInf,
           live = False \<rparr>],
       live_k = 0, dead_k = 3 \<rparr>)"
  by (simp add: forced_stop_model_def run_defs)

lemma forced_stop_decode:
  "decode_beam_search forced_stop_model argsort_stable () 3 = Inr ''<s></s>''"
  by (simp add: decode_beam_search_def best_candidate_def forced_stop_run)
    (simp add: forced_stop_model_def)

lemma negative_run:
  "run_loop negative_model argsort_stable () 3 =
     (2, Inr \<lparr> top_candidates =
        [\<lparr> states = (), idx_sequence = [2, 0, 0], token_sequence = [''<s>'', ''a'', ''a''],
           score = Fin (ln 4), live = True \<rparr>,
         \<lparr> states = (), idx_sequence = [2, 0, 1], token_sequence = [''<s>'', ''a'', ''b''],
           score = NaN, live = True \<rparr>,
         \<lparr> states = (), idx_sequence = [2, 1, 0], token_sequence = [''<s>'', ''b'', ''a''],
           score = Fin (ln 2), live = True \<rparr>],
       live_k = 3, dead_k = 0 \<rparr>)"
  by (simp add: negative_model_def run_defs ln_div)

lemma forced_stop_initial_candidate:
  "\<lparr> states = (), idx_sequence = [0], token_sequence = [''<s>''], score = Fin 0, live = True \<rparr>
     \<in> set (top_candidates (initial_beam forced_stop_model ()))"
  by (simp add: initial_beam_def forced_stop_model_def)

lemma forced_stop_expand_initial:
  "expand forced_stop_model argsort_stable 3
     \<lparr> states = (), idx_sequence = [0], token_sequence = [''<s>''], score = Fin 0, live = True \<rparr> =
   Inr [\<lparr> states = (), idx_sequence = [0, 1], token_sequence = [''<s>'', ''</s>''],
           score = Fin 0, live = False \<rparr>,
        \<lparr> states = (), idx_sequence = [0, 0], token_sequence = [''<s>'', ''<s>''],
           score = PInf, live = True \<rparr>,
        \<lparr> states = (), idx_sequence = [0, 2], token_sequence = [''<s>'', ''a''],
           score = PInf, live = True \<rparr>]"
  by (simp add: forced_stop_model_def run_defs)

lemma forced_stop_pool:
  "new_candidates forced_stop_model argsort_stable 3
     (top_candidates (initial_beam forced_stop_model ())) =
   Inr [\<lparr> states = (), idx_sequence = [0, 1], token_sequence = [''<s>'', ''</s>''],
           score = Fin 0, live = False \<rparr>,
        \<lparr> states = (), idx_sequence = [0, 0], token_sequence = [''<s>'', ''<s>''],
           score = PInf, live = True \<rparr>,
        \<lparr> states = (), idx_sequence = [0, 2], token_sequence = [''<s>'', ''a''],
           score = PInf, live = True \<rparr>]"
  by (simp add: forced_stop_model_def run_defs)

theorem C10_witness:
  "decode_beam_search forced_stop_model argsort_stable () 3 = Inr ''<s></s>'' \<and>
   (\<exists>c rest. best_candidate forced_stop_model argsort_stable () 3 = Inr c \<and>
      token_sequence c = start_token forced_stop_model # rest \<and>
      ''<s></s>'' = DecodePieces forced_stop_model (start_token forced_stop_model # rest))"
  using C10_output_begins_with_start_token[OF forced_stop_decode] forced_stop_decode by simp

lemma probs_finite_nonneg_forced_stop: "probs_finite_nonneg forced_stop_model"
  by (simp add: probs_finite_nonneg_def forced_stop_model_def)

lemma running_forced_stop_initial: "running 3 (initial_beam forced_stop_model ())"
  by (simp add: running_def initial_beam_def)

theorem C2_witness:
  "\<exists>b'. generation forced_stop_model argsort_stable 3 (initial_beam forced_stop_model ()) = Inr b' \<and>
     running 3 (initial_beam forced_stop_model ()) \<and> probs_finite_nonneg forced_stop_model \<and>
     length (top_candidates b') = 3 \<and> ascending (top_candidates b')"
  using C2_beam_bounded_and_sorted[OF reachable_initial running_forced_stop_initial
      forced_stop_pool forced_stop_first_generation]
    probs_finite_nonneg_forced_stop running_forced_stop_initial forced_stop_first_generation
  by simp

theorem C2_counterexample:
  "generations negative_model argsort_stable () 3 = 2 \<and>
   map score (final_candidates negative_model argsort_stable () 3) = [Fin (ln 4), NaN, Fin (ln 2)] \<and>
   \<not> ascending (final_candidates negative_model argsort_stable () 3)"
  by (simp add: generations_def final_candidates_def negative_run ascending_def)

subsection \<open>Scores do not decrease\<close>

lemma reachable_score_nonneg:
  assumes "probs_unit self" and "reachable self argsort input_seq beam_width b"
    and "c \<in> set (top_candidates b)"
  shows "flt_le (Fin 0) (score c)"
proof -
  let ?P = "\<lambda>c::'b candidate. flt_le (Fin 0) (score c)"
  have "\<forall>c \<in> set (top_candidates b). ?P c"
  proof (rule reachable_invariant[OF assms(2)])
    show "?P \<lparr> states = encoder_predict self input_seq,
            idx_sequence = [start_token_idx self],
            token_sequence = [start_token self],
            score = Fin 0, live = True \<rparr>"
      by simp
  next
    fix c succs s
    assume P: "?P c" and e: "expand self argsort beam_width c = Inr succs" and s: "s \<in> set succs"
    from expand_mem[OF e s] obtain probs sts idx where
      p: "decoder_predict self (last (idx_sequence c)) (states c) = (probs, sts)" and
      idx: "idx < length probs" and sc: "score s = flt_sub (score c) (np_log (probs ! idx))"
      by auto
    from p idx have "probs ! idx \<in> set (fst (decoder_predict self (last (idx_sequence c)) (states c)))"
      by simp
    with assms(1) obtain x where "probs ! idx = Fin x" "0 \<le> x" "x \<le> 1"
      unfolding probs_unit_def by blast
    with P have "flt_le (score c) (flt_sub (score c) (np_log (probs ! idx)))"
      by (simp only: flt_sub_np_log_unit)
    with P sc show "?P s" by (auto intro: flt_le_trans)
  qed
  with assms(3) show ?thesis by blast
qed

text \<open>
  C7. When every value of the model is a finite number in \<open>[0, 1]\<close>, every candidate of every
  beam of the loop has a score that is at least 0, and every successor that expansion
  makes of it has a score at least as large as its own.
\<close>

theorem C7_score_nonneg_and_monotone:
  assumes "probs_unit self" and "reachable self argsort input_seq beam_width b"
    and "c \<in> set (top_candidates b)"
  shows "flt_le (Fin 0) (score c) \<and>
         (\<forall>succs s. expand self argsort beam_width c = Inr succs \<longrightarrow> s \<in> set succs \<longrightarrow>
            flt_le (score c) (score s))"
proof -
  have nonneg: "flt_le (Fin 0) (score c)"
    by (rule reachable_score_nonneg[OF assms])
  have "flt_le (score c) (score s)"
    if e: "expand self argsort beam_width c = Inr succs" and s: "s \<in> set succs" for succs s
  proof -
    from expand_mem[OF e s] obtain probs sts idx where
      p: "decoder_predict self (last (idx_sequence c)) (states c) = (probs, sts)" and
      idx: "idx < length probs" and sc: "score s = flt_sub (score c) (np_log (probs ! idx))"
      by auto
    from p idx have "probs ! idx \<in> set (fst (decoder_predict self (last (idx_sequence c)) (states c)))"
      by simp
    with assms(1) obtain x where "probs ! idx = Fin x" "0 \<le> x" "x \<le> 1"
      unfolding probs_unit_def by blast
    with nonneg sc show ?thesis by (simp only: flt_sub_np_log_unit)
  qed
  with nonneg show ?thesis by blast
qed

subsection \<open>Tokens of probability zero\<close>

text \<open>
  C8 (amended). Let expansion select for a live candidate \<open>c\<close> of a beam of the loop an id
  \<open>idx\<close> of probability exactly 0. The pool of the generation holds the successor of \<open>c\<close>
  by \<open>idx\<close>, and the sort keeps it. Its score is \<open>+inf\<close> when the score of \<open>c\<close> is neither
  \<open>nan\<close> nor \<open>-inf\<close>. When no score of the pool is \<open>nan\<close>, every candidate of finite score
  stands before every candidate of score \<open>+inf\<close> in the sorted pool. Both conditions hold
  whenever every value of the model is a finite number that is not negative.
\<close>

theorem C8_zero_probability_token:
  assumes r: "reachable self argsort input_seq beam_width b"
    and pool: "new_candidates self argsort beam_width (top_candidates b) = Inr pool"
    and c: "c \<in> set (top_candidates b)" and lv: "live c"
    and p: "decoder_predict self (last (idx_sequence c)) (states c) = (probs, sts)"
    and idx: "idx \<in> set (py_take beam_width (argsort (map flt_neg probs)))"
    and zero: "probs ! idx = Fin 0"
  shows "(\<exists>s \<in> set (sorted_by_score pool).
            s \<in> set pool \<and> idx_sequence s = idx_sequence c @ [int idx] \<and>
            (score c \<noteq> NaN \<and> score c \<noteq> MInf \<longrightarrow> score s = PInf)) \<and>
         ((\<forall>d \<in> set pool. score d \<noteq> NaN) \<longrightarrow>
            (\<forall>i j. i < length (sorted_by_score pool) \<longrightarrow> j < length (sorted_by_score pool) \<longrightarrow>
               score (sorted_by_score pool ! i) = PInf \<longrightarrow>
               (\<exists>x. score (sorted_by_score pool ! j) = Fin x) \<longrightarrow> j < i)) \<and>
         (probs_finite_nonneg self \<longrightarrow>
            score c \<noteq> NaN \<and> score c \<noteq> MInf \<and> (\<forall>d \<in> set pool. score d \<noteq> NaN))"
proof -
  let ?s = "\<lparr> states = sts, idx_sequence = idx_sequence c @ [int idx],
       token_sequence = token_sequence c @ [tokens self ! idx],
       score = flt_sub (score c) (np_log (probs ! idx)),
       live = (int idx \<noteq> stop_token_idx self) \<rparr>"
  from new_candidates_has[OF pool c] lv obtain succs where
    e: "expand self argsort beam_width c = Inr succs" and sub: "set succs \<subseteq> set pool"
    by auto
  from e p have
    "successors self c probs sts (py_take beam_width (argsort (map flt_neg probs))) = Inr succs"
    by (simp add: expand_def split: if_splits)
  from successors_has[OF this idx] have "?s \<in> set succs" .
  with sub have in_pool: "?s \<in> set pool" by blast
  have "score ?s = PInf" if "score c \<noteq> NaN \<and> score c \<noteq> MInf"
    using that zero flt_sub_np_log_zero[of "score c"] by simp
  with in_pool have first: "\<exists>s \<in> set (sorted_by_score pool).
      s \<in> set pool \<and> idx_sequence s = idx_sequence c @ [int idx] \<and>
      (score c \<noteq> NaN \<and> score c \<noteq> MInf \<longrightarrow> score s = PInf)"
    unfolding set_sorted_by_score by (intro bexI[of _ ?s]) simp_all
  have second: "j < i"
    if nn: "\<forall>d \<in> set pool. score d \<noteq> NaN"
      and i: "i < length (sorted_by_score pool)" and j: "j < length (sorted_by_score pool)"
      and si: "score (sorted_by_score pool ! i) = PInf"
      and sj: "\<exists>x. score (sorted_by_score pool ! j) = Fin x" for i j
  proof (rule ccontr)
    assume "\<not> j < i"
    with si sj have "i < j" by (cases "i = j") auto
    moreover from nn have "ascending (sorted_by_score pool)" by (rule ascending_sorted_by_score)
    ultimately have
      "flt_le (score (sorted_by_score pool ! i)) (score (sorted_by_score pool ! j))"
      using j unfolding ascending_def by (simp add: sorted_wrt_iff_nth_less)
    with si sj show False by auto
  qed
  have third: "score c \<noteq> NaN \<and> score c \<noteq> MInf \<and> (\<forall>d \<in> set pool. score d \<noteq> NaN)"
    if nn: "probs_finite_nonneg self"
    using reachable_no_nan[OF nn r c] pool_no_nan[OF nn r pool] by blast
  from first second third show ?thesis by blast
qed

lemma probs_unit_forced_stop: "probs_unit forced_stop_model"
  by (simp add: probs_unit_def forced_stop_model_def)

theorem C7_witness:
  "probs_unit forced_stop_model \<and>
   flt_le (Fin 0) (Fin 0) \<and> flt_le (Fin 0) PInf \<and>
   expand forced_stop_model argsort_stable 3
     \<lparr> states = (), idx_sequence = [0], token_sequence = [''<s>''], score = Fin 0, live = True \<rparr> =
   Inr [\<lparr> states = (), idx_sequence = [0, 1], token_sequence = [''<s>'', ''</s>''],
           score = Fin 0, live = False \<rparr>,
        \<lparr> states = (), idx_sequence = [0, 0], token_sequence = [''<s>'', ''<s>''],
           score = PInf, live = True \<rparr>,
        \<lparr> states = (), idx_sequence = [0, 2], token_sequence = [''<s>'', ''a''],
           score = PInf, live = True \<rparr>]"
  using C7_score_nonneg_and_monotone[where self = forced_stop_model and argsort = argsort_stable
      and beam_width = 3 and input_seq = "()",
      OF probs_unit_forced_stop reachable_initial forced_stop_initial_candidate]
    probs_unit_forced_stop forced_stop_expand_initial
  by simp

theorem C8_witness:
  "probs_finite_nonneg forced_stop_model \<and>
   decoder_predict forced_stop_model 0 () = ([Fin 0, Fin 1, Fin 0, Fin 0], ()) \<and>
   py_take 3 (argsort_stable (map flt_neg [Fin 0, Fin 1, Fin 0, Fin 0])) = [1, 0, 2] \<and>
   (\<exists>pool. new_candidates forced_stop_model argsort_stable 3
        (top_candidates (initial_beam forced_stop_model ())) = Inr pool \<and>
      (\<exists>s \<in> set (sorted_by_score pool).
         s \<in> set pool \<and> idx_sequence s = [0, 0] \<and> score s = PInf) \<and>
      score (sorted_by_score pool ! 0) = Fin 0 \<and> score (sorted_by_score pool ! 1) = PInf)"
proof -
  have p: "decoder_predict forced_stop_model
      (last (idx_sequence \<lparr> states = (), idx_sequence = [0], token_sequence = [''<s>''],
         score = Fin 0, live = True \<rparr>))
      (states \<lparr> states = (), idx_sequence = [0], token_sequence = [''<s>''],
         score = Fin 0, live = True \<rparr>) = ([Fin 0, Fin 1, Fin 0, Fin 0], ())"
    by (simp add: forced_stop_model_def)
  have t: "py_take 3 (argsort_stable (map flt_neg [Fin 0, Fin 1, Fin 0, Fin 0])) = [1, 0, 2]"
    by (simp add: py_take_def argsort_stable_def upt_conv_Cons)
  then have i: "0 \<in> set (py_take 3 (argsort_stable (map flt_neg [Fin 0, Fin 1, Fin 0, Fin 0])))"
    by simp
  have z: "[Fin 0, Fin 1, Fin 0, Fin 0] ! 0 = Fin 0" by simp
  have l: "live \<lparr> states = (), idx_sequence = [0], token_sequence = [''<s>''],
         score = Fin 0, live = True \<rparr>" by simp
  from C8_zero_probability_token[OF reachable_initial forced_stop_pool
      forced_stop_initial_candidate l p i z]
  have "\<exists>s \<in> set (sorted_by_score
        [\<lparr> states = (), idx_sequence = [0, 1], token_sequence = [''<s>'', ''</s>''],
           score = Fin 0, live = False \<rparr>,
        \<lparr> states = (), idx_sequence = [0, 0], token_sequence = [''<s>'', ''<s>''],
           score = PInf, live = True \<rparr>,
        \<lparr> states = (), idx_sequence = [0, 2], token_sequence = [''<s>'', ''a''],
           score = PInf, live = True \<rparr>]).
      s \<in> set [\<lparr> states = (), idx_sequence = [0, 1], token_sequence = [''<s>'', ''</s>''],
           score = Fin 0, live = False \<rparr>,
        \<lparr> states = (), idx_sequence = [0, 0], token_sequence = [''<s>'', ''<s>''],
           score = PInf, live = True \<rparr>,
        \<lparr> states = (), idx_sequence = [0, 2], token_sequence = [''<s>'', ''a''],
           score = PInf, live = True \<rparr>] \<and> idx_sequence s = [0, 0] \<and> score s = PInf"
    by simp
  with probs_finite_nonneg_forced_stop t forced_stop_pool show ?thesis
    by (simp add: forced_stop_model_def sorted_by_score_def)
qed

text \<open>The first generation of \<open>nan_model\<close> with \<open>beam_width = 2\<close> leaves a live candidate
  of score \<open>nan\<close> in the beam; the model then gives probability 0 to id 1, which is
  selected, and the successor's score is \<open>nan\<close>.\<close>

theorem C8_counterexample:
  "generation nan_model argsort_stable 2 (initial_beam nan_model ()) =
     Inr \<lparr> top_candidates =
        [\<lparr> states = (), idx_sequence = [2, 0], token_sequence = [''<s>'', ''a''],
           score = Fin (ln 2), live = True \<rparr>,
         \<lparr> states = (), idx_sequence = [2, 1], token_sequence = [''<s>'', ''b''],
           score = NaN, live = True \<rparr>],
       live_k = 2, dead_k = 0 \<rparr> \<and>
   fst (decoder_predict nan_model 1 ()) ! 1 = Fin 0 \<and>
   py_take 2 (argsort_stable (map flt_neg (fst (decoder_predict nan_model 1 ())))) = [0, 1] \<and>
   expand nan_model argsort_stable 2
     \<lparr> states = (), idx_sequence = [2, 1], token_sequence = [''<s>'', ''b''],
       score = NaN, live = True \<rparr> =
   Inr [\<lparr> states = (), idx_sequence = [2, 1, 0], token_sequence = [''<s>'', ''b'', ''a''],
          score = NaN, live = True \<rparr>,
        \<lparr> states = (), idx_sequence = [2, 1, 1], token_sequence = [''<s>'', ''b'', ''b''],
          score = NaN, live = True \<rparr>]"
  by (simp add: nan_model_def run_defs ln_div)

subsection \<open>No check of the configuration\<close>

lemma decode_loop_not_running:
  "\<not> running beam_width b \<Longrightarrow> decode_loop self argsort beam_width n b = (0, Inr b)"
  by (cases n) simp_all

lemma run_loop_no_generation:
  assumes "beam_width \<le> 0 \<or> max_len_target self \<le> 0"
  shows "run_loop self argsort input_seq beam_width = (0, Inr (initial_beam self input_seq))"
  using assms
proof
  assume "beam_width \<le> 0"
  then have "\<not> running beam_width (initial_beam self input_seq)"
    by (simp add: running_def initial_beam_def)
  then show ?thesis unfolding run_loop_def by (rule decode_loop_not_running)
next
  assume "max_len_target self \<le> 0"
  then show ?thesis by (simp add: run_loop_def)
qed

text \<open>
  C5 (amended). The decode method checks neither \<open>beam_width\<close> nor \<open>max_len_target\<close>.
  When one of them is zero or negative it raises nothing: no generation is started, and
  the detokenized start token is returned.
\<close>

theorem C5_no_configuration_check:
  assumes "beam_width \<le> 0 \<or> max_len_target self \<le> 0"
  shows "generations self argsort input_seq beam_width = 0 \<and>
         decode_beam_search self argsort input_seq beam_width =
           Inr (DecodePieces self [start_token self])"
  using run_loop_no_generation[OF assms, of argsort input_seq]
  by (simp add: generations_def decode_beam_search_def best_candidate_def initial_beam_def)

theorem C5_witness:
  "(- 1 :: int) \<le> 0 \<and> generations forced_stop_model argsort_stable () (- 1) = 0 \<and>
   decode_beam_search forced_stop_model argsort_stable () (- 1) = Inr ''<s>''"
proof -
  have h: "(- 1 :: int) \<le> 0 \<or> max_len_target forced_stop_model \<le> 0" by simp
  from C5_no_configuration_check[OF h, of argsort_stable "()"] show ?thesis
    by (simp add: forced_stop_model_def)
qed

theorem C5_counterexample:
  "decode_beam_search forced_stop_model argsort_stable () 0 = Inr ''<s>'' \<and>
   decode_beam_search (forced_stop_model \<lparr> max_len_target := 0 \<rparr>) argsort_stable () 3 =
     Inr ''<s>''"
  by (simp add: decode_beam_search_def best_candidate_def forced_stop_model_def run_defs)

subsection \<open>No check of the distribution\<close>

lemma np_sort_le_total: "np_sort_le a b \<or> np_sort_le b a"
  by (cases a; cases b) auto

lemma np_sort_le_trans: "np_sort_le a b \<Longrightarrow> np_sort_le b c \<Longrightarrow> np_sort_le a c"
  by (cases a; cases b; cases c) simp_all

lemma flt_lt_irrefl: "\<not> flt_lt a a"
  by (cases a) simp_all

lemma np_sort_le_neg: "np_sort_le (flt_neg a) (flt_neg b) \<Longrightarrow> \<not> flt_lt a b"
  by (cases a; cases b) simp_all

lemma set_insort_idx: "set (insort_idx xs i js) = insert i (set js)"
  by (induction js) auto

lemma distinct_insort_idx: "i \<notin> set js \<Longrightarrow> distinct js \<Longrightarrow> distinct (insort_idx xs i js)"
  by (induction js) (auto simp: set_insort_idx)

lemma sorted_insort_idx:
  "sorted_wrt np_sort_le (map (\<lambda>j. xs ! j) js) \<Longrightarrow>
   sorted_wrt np_sort_le (map (\<lambda>j. xs ! j) (insort_idx xs i js))"
proof (induction js)
  case Nil
  show ?case by simp
next
  case (Cons j js)
  show ?case
  proof (cases "np_sort_le (xs ! i) (xs ! j)")
    case True
    with Cons.prems show ?thesis by (auto intro: np_sort_le_trans)
  next
    case False
    with np_sort_le_total[of "xs ! i" "xs ! j"] have "np_sort_le (xs ! j) (xs ! i)" by simp
    with False Cons show ?thesis by (auto simp: set_insort_idx)
  qed
qed

lemma foldr_insort_idx:
  "distinct is \<Longrightarrow>
   set (foldr (insort_idx xs) is []) = set is \<and> distinct (foldr (insort_idx xs) is []) \<and>
   sorted_wrt np_sort_le (map (\<lambda>j. xs ! j) (foldr (insort_idx xs) is []))"
  by (induction "is") (auto simp: set_insort_idx distinct_insort_idx sorted_insort_idx)

lemma argsort_ok_stable: "argsort_ok argsort_stable"
  unfolding argsort_ok_def argsort_stable_def
  using foldr_insort_idx[of "[0..<n]" for n] by auto















subsection \<open>The forced stop\<close>

lemma argsort_forced_stop:
  assumes ok: "argsort_ok argsort"
  obtains a b c where "argsort [Fin 0, Fin (- 1), Fin 0, Fin 0] = [1, a, b, c]"
    and "a \<in> {0, 2, 3}" and "b \<in> {0, 2, 3}"
proof -
  let ?xs = "[Fin 0, Fin (- 1), Fin 0, Fin 0]"
  from ok have all: "set (argsort ?xs) = {0..<length ?xs} \<and> distinct (argsort ?xs)
    \<and> sorted_wrt np_sort_le (map (\<lambda>i. ?xs ! i) (argsort ?xs))"
    unfolding argsort_ok_def by blast
  then have s: "set (argsort ?xs) = {0..<4}" by (simp add: eval_nat_numeral)
  from all have d: "distinct (argsort ?xs)"
    and o: "sorted_wrt np_sort_le (map (\<lambda>i. ?xs ! i) (argsort ?xs))" by blast+
  from s d have "length (argsort ?xs) = 4"
    using distinct_card[of "argsort ?xs"] by simp
  then obtain w a b c where xs: "argsort ?xs = [w, a, b, c]"
    by (auto simp: length_Suc_conv eval_nat_numeral)
  from s xs have mem: "w < 4" "a < 4" "b < 4" "c < 4" by auto
  from s xs have one: "1 \<in> {w, a, b, c}" by auto
  from o xs have le: "np_sort_le (?xs ! w) (?xs ! a)" "np_sort_le (?xs ! w) (?xs ! b)"
    "np_sort_le (?xs ! w) (?xs ! c)"
    by auto
  have nth: "?xs ! i = (if i = 1 then Fin (- 1) else Fin 0)" if "i < 4" for i
    using that by (auto simp: nth_Cons' eval_nat_numeral)
  from le mem one have w: "w = 1"
    by (auto simp: nth split: if_splits)
  from d xs w have "a \<noteq> 1" "b \<noteq> 1" by auto
  with mem have "a \<in> {0, 2, 3}" "b \<in> {0, 2, 3}" by auto
  with xs w that show thesis by blast
qed

text \<open>
  C3 (amended). Four output ids, stop id 1, a model that always gives probability 1 to
  the stop id, \<open>beam_width = 3\<close> and \<open>max_len_target = 10\<close>: whatever order \<open>argsort\<close>
  gives to the three ids of probability 0, the loop runs exactly three generations, the
  best candidate is the start token followed by the stop token with score 0, and these
  two pieces are what is detokenized.
\<close>

theorem C3_forced_stop:
  assumes ok: "argsort_ok argsort"
    and d: "\<forall>tok sts. fst (decoder_predict self tok sts) = [Fin 0, Fin 1, Fin 0, Fin 0]"
    and stop: "stop_token_idx self = 1" and m: "max_len_target self = 10"
    and t: "4 \<le> length (tokens self)"
  shows "generations self argsort input_seq 3 = 3 \<and>
    best_candidate self argsort input_seq 3 =
      Inr \<lparr> states = snd (decoder_predict self (start_token_idx self)
                (encoder_predict self input_seq)),
            idx_sequence = [start_token_idx self, 1],
            token_sequence = [start_token self, tokens self ! 1],
            score = Fin 0, live = False \<rparr> \<and>
    decode_beam_search self argsort input_seq 3 =
      Inr (DecodePieces self [start_token self, tokens self ! 1])"
proof -
  from ok obtain a b c where xs: "argsort [Fin 0, Fin (- 1), Fin 0, Fin 0] = [1, a, b, c]"
    and a: "a \<in> {0, 2, 3}" and b: "b \<in> {0, 2, 3}"
    by (rule argsort_forced_stop)
  from t have len: "tokens self \<noteq> []" "\<not> length (tokens self) \<le> Suc 0"
    by auto
  from a b t have ab: "\<not> length (tokens self) \<le> a" "\<not> length (tokens self) \<le> b"
    "\<not> Suc (Suc (Suc (Suc 0))) \<le> a" "\<not> Suc (Suc (Suc (Suc 0))) \<le> b"
    "a \<noteq> Suc 0" "b \<noteq> Suc 0"
    "[Fin 0, Fin 1, Fin 0, Fin 0] ! a = Fin 0" "[Fin 0, Fin 1, Fin 0, Fin 0] ! b = Fin 0"
    by auto
  from d have d': "fst (decoder_predict self tok sts) = [Fin 0, Fin 1, Fin 0, Fin 0]" for tok sts
    by blast
  have run: "run_loop self argsort input_seq 3 =
    (3, Inr \<lparr> top_candidates =
       [\<lparr> states = snd (decoder_predict self (start_token_idx self)
                (encoder_predict self input_seq)),
          idx_sequence = [start_token_idx self, 1],
          token_sequence = [start_token self, tokens self ! 1],
          score = Fin 0, live = False \<rparr>,
        \<lparr> states = snd (decoder_predict self (int a)
                (snd (decoder_predict self (start_token_idx self)
                   (encoder_predict self input_seq)))),
          idx_sequence = [start_token_idx self, int a, 1],
          token_sequence = [start_token self, tokens self ! a, tokens self ! 1],
          score = PInf, live = False \<rparr>,
        \<lparr> states = snd (decoder_predict self (int a)
                (snd (decoder_predict self (int a)
                   (snd (decoder_predict self (start_token_idx self)
                      (encoder_predict self input_seq)))))),
          idx_sequence = [start_token_idx self, int a, int a, 1],
          token_sequence =
            [start_token self, tokens self ! a, tokens self ! a, tokens self ! 1],
          score = PInf, live = False \<rparr>],
       live_k = 0, dead_k = 3 \<rparr>)"
    by (simp add: run_loop_def running_def initial_beam_def generation_def expand_def
      py_take_def prune_def sorted_by_score_def Let_def eval_nat_numeral
      case_prod_unfold d' xs stop m len ab)
  show ?thesis
    by (simp add: generations_def decode_beam_search_def best_candidate_def run)
qed

lemma forced_stop_distribution:
  "\<forall>tok sts. fst (decoder_predict forced_stop_model tok sts) = [Fin 0, Fin 1, Fin 0, Fin 0]"
  by (simp add: forced_stop_model_def)

theorem C3_witness:
  "argsort_ok argsort_stable \<and> stop_token_idx forced_stop_model = 1 \<and>
   max_len_target forced_stop_model = 10 \<and> 4 \<le> length (tokens forced_stop_model) \<and>
   generations forced_stop_model argsort_stable () 3 = 3 \<and>
   decode_beam_search forced_stop_model argsort_stable () 3 = Inr ''<s></s>''"
proof -
  have s: "stop_token_idx forced_stop_model = 1" and m: "max_len_target forced_stop_model = 10"
    and t: "4 \<le> length (tokens forced_stop_model)"
    by (simp_all add: forced_stop_model_def)
  from C3_forced_stop[OF argsort_ok_stable forced_stop_distribution s m t, of "()"]
    argsort_ok_stable s m t
  show ?thesis by (simp add: forced_stop_model_def)
qed

theorem C3_counterexample:
  "generations forced_stop_model argsort_stable () 3 = 3 \<and>
   generations forced_stop_model argsort_stable () 3 \<noteq> 1 \<and>
   map token_sequence (take 1 (final_candidates forced_stop_model argsort_stable () 3)) =
     [[''<s>'', ''</s>'']] \<and>
   decode_beam_search forced_stop_model argsort_stable () 3 = Inr ''<s></s>''"
  by (simp add: generations_def final_candidates_def forced_stop_run forced_stop_decode)

subsection \<open>Beam width 1 is greedy decoding\<close>

lemma argsort_head_is_argmax:
  assumes ok: "argsort_ok argsort" and xs: "argsort (map flt_neg probs) = i # rest"
  shows "is_argmax probs (int i)"
proof -
  let ?ys = "map flt_neg probs"
  from ok have s: "set (argsort ?ys) = {0..<length ?ys}"
    and o: "sorted_wrt np_sort_le (map (\<lambda>j. ?ys ! j) (argsort ?ys))"
    unfolding argsort_ok_def by blast+
  from s xs have i: "i < length probs" by auto
  have "\<not> flt_lt (probs ! i) p" if "p \<in> set probs" for p
  proof -
    from that obtain j where j: "j < length probs" and p: "p = probs ! j"
      by (auto simp: in_set_conv_nth)
    from j s have "j \<in> set (argsort ?ys)" by simp
    with xs have "j = i \<or> j \<in> set rest" by simp
    then show ?thesis
    proof
      assume "j = i"
      with p show ?thesis by (simp add: flt_lt_irrefl)
    next
      assume "j \<in> set rest"
      with o xs have "np_sort_le (?ys ! i) (?ys ! j)" by simp
      with i j p show ?thesis by (simp add: np_sort_le_neg)
    qed
  qed
  with i show ?thesis by (simp add: is_argmax_def)
qed

lemma generation_single:
  assumes ok: "argsort_ok argsort" and lv: "live c"
    and g: "generation self argsort 1 \<lparr> top_candidates = [c], live_k = lk, dead_k = dk \<rparr> = Inr b'"
    and p: "decoder_predict self (last (idx_sequence c)) (states c) = (probs, sts)"
  shows "(b' = \<lparr> top_candidates = [], live_k = 0, dead_k = 0 \<rparr>) \<or>
    (\<exists>i. is_argmax probs (int i) \<and>
      b' = \<lparr> top_candidates =
              [\<lparr> states = sts, idx_sequence = idx_sequence c @ [int i],
                 token_sequence = token_sequence c @ [tokens self ! i],
                 score = flt_sub (score c) (np_log (probs ! i)),
                 live = (int i \<noteq> stop_token_idx self) \<rparr>],
            live_k = (if int i \<noteq> stop_token_idx self then 1 else 0),
            dead_k = (if int i \<noteq> stop_token_idx self then 0 else 1) \<rparr>)"
proof (cases "argsort (map flt_neg probs)")
  case Nil
  with g lv p show ?thesis
    by (auto simp: generation_def expand_def py_take_def prune_def sorted_by_score_def
        split: if_splits sum.splits)
next
  case (Cons i rest)
  from argsort_head_is_argmax[OF ok Cons] have "is_argmax probs (int i)" .
  moreover from g lv p Cons have
    "b' = \<lparr> top_candidates =
              [\<lparr> states = sts, idx_sequence = idx_sequence c @ [int i],
                 token_sequence = token_sequence c @ [tokens self ! i],
                 score = flt_sub (score c) (np_log (probs ! i)),
                 live = (int i \<noteq> stop_token_idx self) \<rparr>],
            live_k = (if int i \<noteq> stop_token_idx self then 1 else 0),
            dead_k = (if int i \<noteq> stop_token_idx self then 0 else 1) \<rparr>"
    by (auto simp: generation_def expand_def py_take_def prune_def sorted_by_score_def
        split: if_splits sum.splits)
  ultimately show ?thesis by blast
qed

lemma decode_loop_greedy:
  assumes ok: "argsort_ok argsort"
  shows "live c \<Longrightarrow>
    decode_loop self argsort 1 n \<lparr> top_candidates = [c], live_k = 1, dead_k = 0 \<rparr> = (g, Inr b') \<Longrightarrow>
    top_candidates b' = c' # cs' \<Longrightarrow>
    \<exists>ids. idx_sequence c' = idx_sequence c @ ids \<and>
      token_sequence c' = token_sequence c @ map (\<lambda>i. tokens self ! nat i) ids \<and>
      greedy_decoding self n (last (idx_sequence c)) (states c) ids"
proof (induction n arbitrary: c g)
  case 0
  then show ?case by auto
next
  case (Suc n)
  let ?b = "\<lparr> top_candidates = [c], live_k = 1, dead_k = 0 \<rparr>"
  have run: "running 1 ?b" by (simp add: running_def)
  obtain probs sts where p: "decoder_predict self (last (idx_sequence c)) (states c) = (probs, sts)"
    by (cases "decoder_predict self (last (idx_sequence c)) (states c)")
  show ?case
  proof (cases "generation self argsort 1 ?b")
    case (Inl e)
    with run Suc.prems(2) show ?thesis by simp
  next
    case (Inr b1)
    obtain g1 r where l: "decode_loop self argsort 1 n b1 = (g1, r)"
      by (cases "decode_loop self argsort 1 n b1")
    with run Inr Suc.prems(2) have r: "r = Inr b'" by simp
    from generation_single[OF ok Suc.prems(1) Inr p] show ?thesis
    proof
      assume e: "b1 = \<lparr> top_candidates = [], live_k = 0, dead_k = 0 \<rparr>"
      then have "\<not> running 1 b1" by (simp add: running_def)
      from decode_loop_not_running[where self = self and argsort = argsort and n = n, OF this] l r have "b' = b1" by simp
      with e Suc.prems(3) show ?thesis by simp
    next
      assume "\<exists>i. is_argmax probs (int i) \<and>
        b1 = \<lparr> top_candidates =
              [\<lparr> states = sts, idx_sequence = idx_sequence c @ [int i],
                 token_sequence = token_sequence c @ [tokens self ! i],
                 score = flt_sub (score c) (np_log (probs ! i)),
                 live = (int i \<noteq> stop_token_idx self) \<rparr>],
            live_k = (if int i \<noteq> stop_token_idx self then 1 else 0),
            dead_k = (if int i \<noteq> stop_token_idx self then 0 else 1) \<rparr>"
      then obtain i where am: "is_argmax probs (int i)" and
        b1: "b1 = \<lparr> top_candidates =
              [\<lparr> states = sts, idx_sequence = idx_sequence c @ [int i],
                 token_sequence = token_sequence c @ [tokens self ! i],
                 score = flt_sub (score c) (np_log (probs ! i)),
                 live = (int i \<noteq> stop_token_idx self) \<rparr>],
            live_k = (if int i \<noteq> stop_token_idx self then 1 else 0),
            dead_k = (if int i \<noteq> stop_token_idx self then 0 else 1) \<rparr>"
        by blast
      let ?s = "\<lparr> states = sts, idx_sequence = idx_sequence c @ [int i],
                 token_sequence = token_sequence c @ [tokens self ! i],
                 score = flt_sub (score c) (np_log (probs ! i)),
                 live = (int i \<noteq> stop_token_idx self) \<rparr>"
      show ?thesis
      proof (cases "int i = stop_token_idx self")
        case True
        with b1 have "\<not> running 1 b1" by (simp add: running_def)
        from decode_loop_not_running[where self = self and argsort = argsort and n = n, OF this] l r have "b' = b1" by simp
        with b1 Suc.prems(3) have c': "c' = ?s" by simp
        have "greedy_decoding self (Suc n) (last (idx_sequence c)) (states c) [int i]"
          using p am True by simp
        with c' show ?thesis by (intro exI[of _ "[int i]"]) simp
      next
        case False
        with b1 have b1': "b1 = \<lparr> top_candidates = [?s], live_k = 1, dead_k = 0 \<rparr>"
          by simp
        from False have ls: "live ?s" by simp
        from l r b1' have "decode_loop self argsort 1 n
            \<lparr> top_candidates = [?s], live_k = 1, dead_k = 0 \<rparr> = (g1, Inr b')"
          by simp
        from Suc.IH[OF ls this Suc.prems(3)] obtain ids where
          i1: "idx_sequence c' = idx_sequence ?s @ ids" and
          i2: "token_sequence c' = token_sequence ?s @ map (\<lambda>i. tokens self ! nat i) ids" and
          i3: "greedy_decoding self n (last (idx_sequence ?s)) (states ?s) ids"
          by blast
        have "greedy_decoding self (Suc n) (last (idx_sequence c)) (states c) (int i # ids)"
          using p am False i3 by simp
        with i1 i2 show ?thesis by (intro exI[of _ "int i # ids"]) simp
      qed
    qed
  qed
qed

text \<open>
  C9. With \<open>beam_width = 1\<close>, whenever the loop ends with a best candidate, its ids are
  the start token followed by a greedy decoding from the encoder's state with the budget
  \<open>max_len_target\<close>: an arg-max id of each step distribution, up to the stop token or the
  budget; its pieces are those of these ids. This holds for every \<open>argsort\<close> that meets
  numpy's contract.
\<close>

theorem C9_beam_width_one_is_greedy:
  assumes ok: "argsort_ok argsort"
    and best: "best_candidate self argsort input_seq 1 = Inr c"
  shows "\<exists>ids. idx_sequence c = start_token_idx self # ids \<and>
    token_sequence c = start_token self # map (\<lambda>i. tokens self ! nat i) ids \<and>
    greedy_decoding self (nat (max_len_target self)) (start_token_idx self)
      (encoder_predict self input_seq) ids"
proof -
  let ?c0 = "\<lparr> states = encoder_predict self input_seq,
            idx_sequence = [start_token_idx self],
            token_sequence = [start_token self],
            score = Fin 0, live = True \<rparr>"
  from best obtain b' cs' where
    b: "snd (run_loop self argsort input_seq 1) = Inr b'" and top: "top_candidates b' = c # cs'"
    by (auto simp: best_candidate_def split: sum.splits list.splits)
  then obtain g where "decode_loop self argsort 1 (nat (max_len_target self))
      \<lparr> top_candidates = [?c0], live_k = 1, dead_k = 0 \<rparr> = (g, Inr b')"
    by (cases "run_loop self argsort input_seq 1") (simp add: run_loop_def initial_beam_def)
  from decode_loop_greedy[OF ok _ this top] show ?thesis by simp
qed

lemma two_step_best:
  "best_candidate two_step_model argsort_stable () 1 =
     Inr \<lparr> states = (), idx_sequence = [0, 1, 2], token_sequence = [''<s>'', ''a'', ''</s>''],
           score = Fin (- ln (7 / 10) - ln (7 / 10)), live = False \<rparr>"
  by (simp add: best_candidate_def two_step_model_def run_defs)

theorem C9_witness:
  "argsort_ok argsort_stable \<and>
   best_candidate two_step_model argsort_stable () 1 =
     Inr \<lparr> states = (), idx_sequence = [0, 1, 2], token_sequence = [''<s>'', ''a'', ''</s>''],
           score = Fin (- ln (7 / 10) - ln (7 / 10)), live = False \<rparr> \<and>
   greedy_decoding two_step_model 5 0 () [1, 2]"
  using C9_beam_width_one_is_greedy[OF argsort_ok_stable two_step_best]
    argsort_ok_stable two_step_best
  by (simp add: two_step_model_def)

subsection \<open>Two facts about the library operations\<close>

text \<open>
  A list in which no element is smaller than the one before it is one ascending run for
  Python's sort, which returns it as it is; so does \<open>sorted_by_score\<close>, also when scores
  are \<open>nan\<close>. The run of \<open>negative_model\<close> above sorts only such lists.
\<close>

lemma sorted_by_score_one_run:
  "successively (\<lambda>c d. \<not> flt_lt (score d) (score c)) cs \<Longrightarrow> sorted_by_score cs = cs"
proof (induction cs)
  case Nil
  show ?case by (rule sorted_by_score_Nil)
next
  case (Cons c cs)
  then have "sorted_by_score cs = cs" by (cases cs) simp_all
  with Cons.prems show ?case
    by (cases cs) (simp_all add: sorted_by_score_Cons)
qed

text \<open>
  The ids that line 176 selects carry the highest probabilities, for every \<open>argsort\<close> that
  meets numpy's contract: no id left out has a higher probability than a selected one.
  Which of several ids of equal probability is selected is left to \<open>argsort\<close>.
\<close>

lemma selected_ids_highest:
  assumes ok: "argsort_ok argsort" and k: "0 \<le> k"
    and i: "i \<in> set (py_take k (argsort (map flt_neg probs)))"
    and j: "j < length probs" and nj: "j \<notin> set (py_take k (argsort (map flt_neg probs)))"
  shows "\<not> flt_lt (probs ! i) (probs ! j)"
proof -
  let ?ys = "map flt_neg probs"
  let ?xs = "argsort ?ys"
  from ok have s: "set ?xs = {0..<length ?ys}"
    and o: "sorted_wrt np_sort_le (map (\<lambda>j. ?ys ! j) ?xs)"
    unfolding argsort_ok_def by blast+
  from k have t: "py_take k ?xs = take (nat k) ?xs" by (simp add: py_take_def)
  from i t obtain a where a: "a < length ?xs" "a < nat k" "?xs ! a = i"
    by (auto simp: in_set_conv_nth)
  from j s have "j \<in> set ?xs" by simp
  then obtain b where b: "b < length ?xs" "?xs ! b = j"
    by (auto simp: in_set_conv_nth)
  have "\<not> b < nat k"
  proof
    assume "b < nat k"
    with b have "j \<in> set (take (nat k) ?xs)"
      by (auto simp: in_set_conv_nth intro!: exI[of _ b])
    with nj t show False by simp
  qed
  with a have "a < b" by simp
  with o b(1) have "np_sort_le (map (\<lambda>j. ?ys ! j) ?xs ! a) (map (\<lambda>j. ?ys ! j) ?xs ! b)"
    by (simp add: sorted_wrt_iff_nth_less del: nth_map)
  with a b have le: "np_sort_le (?ys ! i) (?ys ! j)" by simp
  from i s set_py_take[of k ?xs] have "i < length probs" by auto
  with le j show ?thesis by (simp add: np_sort_le_neg)
qed

end
